theory Spec2Isabelle
  imports Main "HOL-Library.Multiset" "HOL-Library.Extended_Nat"
begin

section \<open>The sidebar ordering callback of docs/.vitepress/config.ts\<close>

text \<open>
  The only executable logic of the repository is the callback
  \<^verbatim>\<open>beforeCreateSideBarItems\<close> handed to the auto-sidebar plugin (lines 125 to 144 of
  \<^verbatim>\<open>docs/.vitepress/config.ts\<close>):
  \<^verbatim>\<open>
  beforeCreateSideBarItems: (data: string[]): string[] => {
      function getOrder(item: string): number {
          if (item == "index.md") { return 0; }
          let res = item.match(/(?<order>\d+)/);
          if (res && res.groups) { return parseInt(res.groups.order); }
          else { return 999; }
      }
      data.sort((a, b) => { return getOrder(a) - getOrder(b); });
      return data.filter((n) => n != ".DS_Store");
  }
  \<close>
  It is embedded below together with the parts of the language it relies on: the number
  type, \<^verbatim>\<open>parseInt\<close>, the regular expression \<^verbatim>\<open>\d+\<close>, and the array
  methods \<^verbatim>\<open>sort\<close> (in place) and \<^verbatim>\<open>filter\<close> (fresh array).
\<close>

subsection \<open>Numbers\<close>

text \<open>
  A value of type \<^verbatim>\<open>number\<close> is an IEEE 754 double. The callback only ever builds
  integer-valued doubles, the two infinities and NaN, so a finite number is carried by the
  integer it denotes. Not every integer is a double: \<open>to_number\<close> is the conversion of an
  integer to the number for it, rounding to the nearest double
  with ties to the even significand (53 bits), and to an infinity from
  \<open>2 ^ 1024 - 2 ^ 970\<close> on.
\<close>

datatype number = Finite int | PosInf | NegInf | NaN

text \<open>The number of low bits that a 53-bit significand cannot hold.\<close>

function exponent :: "int \<Rightarrow> nat" where
  "exponent m = (if m < 2 ^ 53 then 0 else Suc (exponent (m div 2)))"
  by pat_completeness auto
termination
proof (relation "measure nat")
  show "wf (measure nat)" by simp
next
  fix m :: int
  assume "\<not> m < 2 ^ 53"
  then have "0 < m" by (cases "m \<le> 0") simp_all
  then show "(m div 2, m) \<in> measure nat" by simp
qed

declare exponent.simps [simp del]

text \<open>Round a magnitude to 53 significant bits, ties to even.\<close>

definition round_mag :: "int \<Rightarrow> int" where
  "round_mag m =
     (let e = exponent m; q = m div 2 ^ e; r = m mod 2 ^ e
      in if 2 ^ e < 2 * r \<or> (2 * r = 2 ^ e \<and> odd q) then (q + 1) * 2 ^ e else q * 2 ^ e)"

definition to_number :: "int \<Rightarrow> number" where
  "to_number x =
     (let m = round_mag \<bar>x\<bar>
      in if 2 ^ 1024 \<le> m then (if x < 0 then NegInf else PosInf)
         else Finite (if x < 0 then - m else m))"

text \<open>
  Subtraction of numbers: the exact difference of two finite doubles, rounded; the
  difference of equal infinities is NaN.
\<close>

fun num_sub :: "number \<Rightarrow> number \<Rightarrow> number" where
  "num_sub (Finite a) (Finite b) = to_number (a - b)"
| "num_sub (Finite a) PosInf = NegInf"
| "num_sub (Finite a) NegInf = PosInf"
| "num_sub PosInf (Finite b) = PosInf"
| "num_sub PosInf NegInf = PosInf"
| "num_sub NegInf (Finite b) = NegInf"
| "num_sub NegInf PosInf = NegInf"
| "num_sub PosInf PosInf = NaN"
| "num_sub NegInf NegInf = NaN"
| "num_sub NaN y = NaN"
| "num_sub x NaN = NaN"

text \<open>The comparison \<^verbatim>\<open><=\<close> of numbers; every comparison with NaN is false.\<close>

fun num_le :: "number \<Rightarrow> number \<Rightarrow> bool" where
  "num_le NaN y = False"
| "num_le x NaN = False"
| "num_le NegInf y = True"
| "num_le x PosInf = True"
| "num_le (Finite a) (Finite b) = (a \<le> b)"
| "num_le x y = False"

text \<open>The test \<^verbatim>\<open>v > 0\<close>.\<close>

fun positive :: "number \<Rightarrow> bool" where
  "positive (Finite v) = (0 < v)"
| "positive PosInf = True"
| "positive NegInf = False"
| "positive NaN = False"

subsection \<open>The order key\<close>

text \<open>The class \<^verbatim>\<open>\d\<close> of a regular expression is the ten ASCII digits.\<close>

definition is_digit :: "char \<Rightarrow> bool" where
  "is_digit c = (48 \<le> (of_char c :: int) \<and> (of_char c :: int) \<le> 57)"

definition digit_val :: "char \<Rightarrow> int" where
  "digit_val c = of_char c - 48"

text \<open>
  \<^verbatim>\<open>item.match(/(?<order>\d+)/)\<close>: the match starts at the first position where a
  digit stands and, the quantifier being greedy, takes every digit that follows. The
  result is the group \<^verbatim>\<open>order\<close>, or \<open>None\<close> for \<^verbatim>\<open>null\<close>.
\<close>

definition match_order :: "string \<Rightarrow> string option" where
  "match_order item =
     (let rest = dropWhile (\<lambda>c. \<not> is_digit c) item
      in if rest = [] then None else Some (takeWhile is_digit rest))"

text \<open>
  \<^verbatim>\<open>parseInt\<close> with no radix reads the longest prefix of decimal digits and returns
  the number for its value, NaN when there is none. (White space, a sign and the prefix
  \<^verbatim>\<open>0x\<close> are handled by \<^verbatim>\<open>parseInt\<close> too; its only argument here is a match of
  \<^verbatim>\<open>\d+\<close>, where none of them occurs.) The conversion is the correctly rounded one:
  the language prescribes it for up to 20 significant digits and lets an implementation
  replace later digits by zeros; V8, on which the site is built, rounds correctly
  throughout.
\<close>

definition parseInt :: "string \<Rightarrow> number" where
  "parseInt s =
     (let ds = takeWhile is_digit s
      in if ds = [] then NaN
         else to_number (foldl (\<lambda>acc c. acc * 10 + digit_val c) 0 ds))"

definition getOrder :: "string \<Rightarrow> number" where
  "getOrder item =
     (if item = ''index.md'' then Finite 0
      else case match_order item of
             Some order \<Rightarrow> parseInt order
           | None \<Rightarrow> Finite 999)"

text \<open>The comparator \<^verbatim>\<open>(a, b) => getOrder(a) - getOrder(b)\<close>.\<close>

definition compare :: "string \<Rightarrow> string \<Rightarrow> number" where
  "compare a b = num_sub (getOrder a) (getOrder b)"

subsection \<open>Sorting and filtering arrays\<close>

text \<open>
  \<^verbatim>\<open>Array.prototype.sort\<close> with a comparator is a stable sort: \<open>x\<close> is put after
  \<open>y\<close> exactly when the comparator's value on \<open>(x, y)\<close> is greater than zero, a NaN
  counting as zero. Insertion from the right end is such a sort.
\<close>

fun insert_sorted :: "('a \<Rightarrow> 'a \<Rightarrow> number) \<Rightarrow> 'a \<Rightarrow> 'a list \<Rightarrow> 'a list" where
  "insert_sorted cmp x [] = [x]"
| "insert_sorted cmp x (y # ys) =
     (if positive (cmp x y) then y # insert_sorted cmp x ys else x # y # ys)"

definition array_sort :: "('a \<Rightarrow> 'a \<Rightarrow> number) \<Rightarrow> 'a list \<Rightarrow> 'a list" where
  "array_sort cmp xs = foldr (insert_sorted cmp) xs []"

text \<open>
  The value the callback returns, as a function of the content of \<^verbatim>\<open>data\<close>:
  sort, then filter.
\<close>

definition sidebar_items :: "string list \<Rightarrow> string list" where
  "sidebar_items data = filter (\<lambda>n. n \<noteq> ''.DS_Store'') (array_sort compare data)"

subsection \<open>The callback on a store of arrays\<close>

text \<open>
  Arrays are objects: \<^verbatim>\<open>data\<close> is a reference, \<^verbatim>\<open>sort\<close> overwrites the array
  it is called on and returns the same reference, \<^verbatim>\<open>filter\<close> allocates a new array.
  The store is the list of all arrays, a reference is a position in it.
\<close>

type_synonym ref = nat
type_synonym store = "string list list"

definition Array_sort :: "(string \<Rightarrow> string \<Rightarrow> number) \<Rightarrow> ref \<Rightarrow> store \<Rightarrow> store" where
  "Array_sort cmp a h = h[a := array_sort cmp (h ! a)]"

definition Array_filter :: "(string \<Rightarrow> bool) \<Rightarrow> ref \<Rightarrow> store \<Rightarrow> ref \<times> store" where
  "Array_filter p a h = (length h, h @ [filter p (h ! a)])"

definition beforeCreateSideBarItems :: "ref \<Rightarrow> store \<Rightarrow> ref \<times> store" where
  "beforeCreateSideBarItems data h =
     (let h1 = Array_sort compare data h
      in Array_filter (\<lambda>n. n \<noteq> ''.DS_Store'') data h1)"

subsection \<open>The keys of the code as a linear order\<close>

text \<open>
  A device for the proofs about the code, not a notion of the specification: the numbers
  \<open>getOrder\<close> returns are the non-negative finite numbers and \<open>+\<infinity>\<close>, and on them the
  comparison of numbers is the order of the extended naturals.
\<close>

fun rank :: "number \<Rightarrow> enat" where
  "rank (Finite n) = enat (nat n)"
| "rank PosInf = \<infinity>"
| "rank NegInf = 0"
| "rank NaN = 0"

fun key_ok :: "number \<Rightarrow> bool" where
  "key_ok (Finite n) = (0 \<le> n)"
| "key_ok PosInf = True"
| "key_ok NegInf = False"
| "key_ok NaN = False"

definition code_key :: "string \<Rightarrow> enat" where
  "code_key item = rank (getOrder item)"

subsection \<open>Notions of the specification\<close>

text \<open>The integer a string of digits denotes in base ten, most significant digit first.\<close>

fun decimal :: "string \<Rightarrow> int" where
  "decimal [] = 0"
| "decimal (c # cs) = digit_val c * 10 ^ length cs + decimal cs"

definition has_digit :: "string \<Rightarrow> bool" where
  "has_digit s = list_ex is_digit s"

text \<open>
  \<open>run\<close> is the leftmost maximal run of digits of \<open>s\<close>, standing between \<open>pre\<close> and
  \<open>post\<close>.
\<close>

definition leftmost_run :: "string \<Rightarrow> string \<Rightarrow> string \<Rightarrow> string \<Rightarrow> bool" where
  "leftmost_run s pre run post =
     (s = pre @ run @ post \<and> \<not> list_ex is_digit pre \<and> run \<noteq> [] \<and> list_all is_digit run
      \<and> (case post of [] \<Rightarrow> True | c # cs \<Rightarrow> \<not> is_digit c))"

text \<open>
  The Order Key of the specification, \<^verbatim>\<open>computeOrderKey\<close>: 0 for the landing page;
  otherwise the first contiguous run of decimal digits, parsed as a base-10 non-negative
  integer; 999 when the filename has no digit. It is an integer of any size.
\<close>

definition first_digit_run :: "string \<Rightarrow> string" where
  "first_digit_run s = takeWhile is_digit (dropWhile (\<lambda>c. \<not> is_digit c) s)"

definition computeOrderKey :: "string \<Rightarrow> int" where
  "computeOrderKey filename =
     (if filename = ''index.md'' then 0
      else if has_digit filename then decimal (first_digit_run filename)
      else 999)"

text \<open>
  The operation \<^verbatim>\<open>filterAndSort\<close> in the order the specification gives its steps:
  remove every element equal to the artifact name, then stable-sort what remains ascending
  by \<^verbatim>\<open>computeOrderKey\<close>. The stable sort is the library's insertion sort by key.
\<close>

definition filterAndSort :: "string list \<Rightarrow> string list" where
  "filterAndSort filenames =
     sort_key computeOrderKey (filter (\<lambda>n. n \<noteq> ''.DS_Store'') filenames)"

text \<open>The Order Key rounded to the nearest number, as an extended natural.\<close>

definition rounded_key :: "string \<Rightarrow> enat" where
  "rounded_key filename = rank (to_number (computeOrderKey filename))"

section \<open>Rounding and the order key\<close>

lemma exponent_le: "0 < m \<Longrightarrow> 2 ^ exponent m \<le> m"
proof (induction m rule: exponent.induct)
  case (1 m)
  show ?case
  proof (cases "m < 2 ^ 53")
    case True
    with "1.prems" show ?thesis by (simp add: exponent.simps)
  next
    case False
    then have "0 < m div 2" by simp
    with False "1.IH" have "2 ^ exponent (m div 2) \<le> m div 2" by simp
    then have "2 * 2 ^ exponent (m div 2) \<le> m" by simp
    with False show ?thesis by (simp add: exponent.simps [of m])
  qed
qed

lemma round_mag_small: "m < 2 ^ 53 \<Longrightarrow> round_mag m = m"
  by (simp add: round_mag_def exponent.simps)

lemma round_mag_pos: "0 < m \<Longrightarrow> 0 < round_mag m"
proof -
  assume m: "0 < m"
  let ?e = "exponent m"
  from m have "2 ^ ?e \<le> m" by (rule exponent_le)
  then have "0 < m div 2 ^ ?e" by (simp add: pos_imp_zdiv_pos_iff)
  then show ?thesis by (simp add: round_mag_def Let_def)
qed

lemma round_mag_nonneg: "0 \<le> m \<Longrightarrow> 0 \<le> round_mag m"
  using round_mag_pos [of m] round_mag_small [of m] by (cases "m = 0") simp_all

lemma positive_to_number: "positive (to_number d) \<longleftrightarrow> 0 < d"
proof -
  consider "d = 0" | "d < 0" | "0 < d" by linarith
  then show ?thesis
  proof cases
    case 1
    then show ?thesis by (simp add: to_number_def round_mag_small)
  next
    case 2
    then have "0 < round_mag (- d)" by (simp add: round_mag_pos)
    with 2 show ?thesis by (simp add: to_number_def Let_def)
  next
    case 3
    then have "0 < round_mag d" by (simp add: round_mag_pos)
    with 3 show ?thesis by (simp add: to_number_def Let_def)
  qed
qed

lemma key_ok_to_number: "0 \<le> x \<Longrightarrow> key_ok (to_number x)"
  using round_mag_nonneg [of x] by (simp add: to_number_def Let_def)

lemma digit_val_nonneg: "is_digit c \<Longrightarrow> 0 \<le> digit_val c"
  by (simp add: is_digit_def digit_val_def)

lemma horner_nonneg:
  "0 \<le> acc \<Longrightarrow> list_all is_digit ds \<Longrightarrow> 0 \<le> foldl (\<lambda>acc c. acc * 10 + digit_val c) acc ds"
  by (induction ds arbitrary: acc) (simp_all add: digit_val_nonneg)

lemma horner_decimal:
  "foldl (\<lambda>acc c. acc * 10 + digit_val c) acc ds = acc * 10 ^ length ds + decimal ds"
  by (induction ds arbitrary: acc) (simp_all add: algebra_simps)

lemma decimal_nonneg: "list_all is_digit ds \<Longrightarrow> 0 \<le> decimal ds"
  by (induction ds) (simp_all add: digit_val_nonneg)

lemma dropWhile_nondigit_Nil: "dropWhile (\<lambda>c. \<not> is_digit c) s = [] \<longleftrightarrow> \<not> has_digit s"
  by (simp add: has_digit_def list_ex_iff)

lemma match_order_None: "match_order s = None \<longleftrightarrow> \<not> has_digit s"
  by (simp add: match_order_def Let_def has_digit_def list_ex_iff)

lemma match_order_digits:
  assumes "match_order s = Some r"
  shows "r \<noteq> [] \<and> list_all is_digit r"
proof -
  let ?rest = "dropWhile (\<lambda>c. \<not> is_digit c) s"
  from assms have rest: "?rest \<noteq> []" and r: "r = takeWhile is_digit ?rest"
    by (auto simp: match_order_def Let_def split: if_splits)
  from rest have "is_digit (hd ?rest)" using hd_dropWhile [of "\<lambda>c. \<not> is_digit c" s] by simp
  with rest have "takeWhile is_digit ?rest \<noteq> []" by (cases ?rest) simp_all
  moreover have "list_all is_digit (takeWhile is_digit ?rest)"
    by (simp add: list_all_iff) (meson set_takeWhileD)
  ultimately show ?thesis using r by simp
qed

lemma match_order_leftmost_run:
  assumes "leftmost_run s pre run post"
  shows "match_order s = Some run"
proof -
  from assms have s: "s = pre @ run @ post" and pre: "\<forall>c\<in>set pre. \<not> is_digit c"
    and run: "run \<noteq> []" "\<forall>c\<in>set run. is_digit c"
    and post: "post = [] \<or> \<not> is_digit (hd post)"
    by (auto simp: leftmost_run_def list_ex_iff list_all_iff split: list.splits)
  from run have hd: "is_digit (hd run)" by (cases run) simp_all
  from pre hd run have "dropWhile (\<lambda>c. \<not> is_digit c) s = run @ post"
    unfolding s by (cases run) (simp_all add: dropWhile_append3)
  moreover from run post have "takeWhile is_digit (run @ post) = run"
    by (cases post) (simp_all add: takeWhile_tail)
  ultimately show ?thesis using run by (simp add: match_order_def Let_def)
qed

lemma parseInt_digits:
  assumes "r \<noteq> []" "list_all is_digit r"
  shows "parseInt r = to_number (decimal r)"
proof -
  from assms(2) have eq: "takeWhile is_digit r = r" by (simp add: list_all_iff)
  show ?thesis unfolding parseInt_def Let_def eq using assms(1) by (simp add: horner_decimal)
qed

lemma key_ok_getOrder: "key_ok (getOrder s)"
proof (cases "match_order s")
  case None
  then show ?thesis by (simp add: getOrder_def)
next
  case (Some r)
  then have r: "r \<noteq> []" "list_all is_digit r" using match_order_digits by blast+
  then have "key_ok (parseInt r)"
    by (simp add: parseInt_digits key_ok_to_number decimal_nonneg)
  with Some show ?thesis by (simp add: getOrder_def)
qed

lemma positive_num_sub:
  "key_ok u \<Longrightarrow> key_ok v \<Longrightarrow> positive (num_sub u v) \<longleftrightarrow> rank v < rank u"
  by (cases u; cases v) (auto simp: positive_to_number)

lemma num_le_rank: "key_ok u \<Longrightarrow> key_ok v \<Longrightarrow> num_le u v \<longleftrightarrow> rank u \<le> rank v"
  by (cases u; cases v) auto

lemma rank_eq_iff: "key_ok u \<Longrightarrow> key_ok v \<Longrightarrow> rank u = rank v \<longleftrightarrow> u = v"
  by (cases u; cases v) auto

lemma positive_compare: "positive (compare a b) \<longleftrightarrow> code_key b < code_key a"
  by (simp add: compare_def code_key_def positive_num_sub key_ok_getOrder)

lemma insert_sorted_compare: "insert_sorted compare x ys = insort_key code_key x ys"
  by (induction ys) (auto simp: positive_compare)

lemma array_sort_compare: "array_sort compare xs = sort_key code_key xs"
  by (induction xs) (simp_all add: array_sort_def insert_sorted_compare)

section \<open>The callback sorts by the order key\<close>

lemma sidebar_items_sort_key:
  "sidebar_items data = sort_key code_key (filter (\<lambda>n. n \<noteq> ''.DS_Store'') data)"
  by (simp add: sidebar_items_def array_sort_compare filter_sort)

lemma sorted_sidebar_items: "sorted (map code_key (sidebar_items data))"
  by (simp add: sidebar_items_sort_key)

lemma num_le_getOrder: "num_le (getOrder a) (getOrder b) \<longleftrightarrow> code_key a \<le> code_key b"
  by (simp add: code_key_def num_le_rank key_ok_getOrder)

lemma getOrder_eq_iff: "getOrder a = getOrder b \<longleftrightarrow> code_key a = code_key b"
  by (simp add: code_key_def rank_eq_iff key_ok_getOrder)

lemma filter_getOrder:
  "filter (\<lambda>n. getOrder n = k) xs =
     (if key_ok k then filter (\<lambda>n. code_key n = rank k) xs else [])"
proof (cases "key_ok k")
  case True
  then have "\<And>n. getOrder n = k \<longleftrightarrow> code_key n = rank k"
    by (simp add: code_key_def rank_eq_iff key_ok_getOrder)
  with True show ?thesis by simp
next
  case False
  then have "\<And>n. getOrder n \<noteq> k" using key_ok_getOrder by metis
  with False show ?thesis by simp
qed

subsection \<open>Further facts about the order key and the store\<close>

lemma to_number_exact:
  assumes "0 \<le> x" "x \<le> 2 ^ 53"
  shows "to_number x = Finite x"
proof (cases "x < 2 ^ 53")
  case True
  with assms(1) show ?thesis by (simp add: to_number_def round_mag_small)
next
  case False
  with assms(2) have x: "x = 2 ^ 53" by simp
  have "exponent (2 ^ 53) = 1" by (simp add: exponent.simps)
  then have "round_mag (2 ^ 53) = 2 ^ 53" by (simp add: round_mag_def)
  then show ?thesis unfolding x by (simp add: to_number_def)
qed

lemma getOrder_run:
  assumes "leftmost_run item pre run post"
  shows "getOrder item = parseInt run" and "item \<noteq> ''index.md''"
proof -
  from assms have m: "match_order item = Some run" by (rule match_order_leftmost_run)
  then have "has_digit item" using match_order_None [of item] by simp
  moreover have "\<not> has_digit ''index.md''" by (simp add: has_digit_def is_digit_def)
  ultimately show "item \<noteq> ''index.md''" by blast
  with m show "getOrder item = parseInt run" by (simp add: getOrder_def)
qed

text \<open>Every filename with a digit has a leftmost maximal run of digits.\<close>

lemma leftmost_run_exists:
  assumes "has_digit s"
  shows "leftmost_run s (takeWhile (\<lambda>c. \<not> is_digit c) s)
           (takeWhile is_digit (dropWhile (\<lambda>c. \<not> is_digit c) s))
           (dropWhile is_digit (dropWhile (\<lambda>c. \<not> is_digit c) s))"
proof -
  let ?rest = "dropWhile (\<lambda>c. \<not> is_digit c) s"
  from assms have rest: "?rest \<noteq> []" by (simp add: has_digit_def list_ex_iff)
  then have "is_digit (hd ?rest)" using hd_dropWhile [of "\<lambda>c. \<not> is_digit c" s] by simp
  with rest have run1: "takeWhile is_digit ?rest \<noteq> []" by (cases ?rest) simp_all
  have run2: "list_all is_digit (takeWhile is_digit ?rest)"
    unfolding list_all_iff
  proof
    fix c assume "c \<in> set (takeWhile is_digit ?rest)"
    then show "is_digit c" by (rule set_takeWhileD [THEN conjunct2])
  qed
  have pre: "\<not> list_ex is_digit (takeWhile (\<lambda>c. \<not> is_digit c) s)"
    unfolding list_ex_iff
  proof
    assume "\<exists>c\<in>set (takeWhile (\<lambda>c. \<not> is_digit c) s). is_digit c"
    then obtain c where c: "c \<in> set (takeWhile (\<lambda>c. \<not> is_digit c) s)" and d: "is_digit c" ..
    from c have "\<not> is_digit c" by (rule set_takeWhileD [THEN conjunct2])
    with d show False by simp
  qed
  have post: "\<not> is_digit c" if "dropWhile is_digit ?rest = c # cs" for c cs
    using hd_dropWhile [of is_digit ?rest] that by simp
  from run1 run2 pre show ?thesis
    unfolding leftmost_run_def by (auto split: list.split dest: post)
qed

lemma getOrder_no_digit: "\<not> has_digit n \<Longrightarrow> n \<noteq> ''index.md'' \<Longrightarrow> getOrder n = Finite 999"
  using match_order_None [of n] by (simp add: getOrder_def)

lemma code_key_index: "code_key ''index.md'' = 0"
  by (simp add: code_key_def getOrder_def zero_enat_def)

lemma code_key_zero_iff: "code_key n = 0 \<longleftrightarrow> getOrder n = Finite 0"
  using getOrder_eq_iff [of n "''index.md''"] by (simp add: code_key_index) (simp add: getOrder_def)

lemma hd_filter_first:
  assumes "x \<in> set xs" "P x" "\<forall>y\<in>set (takeWhile (\<lambda>y. y \<noteq> x) xs). \<not> P y"
  shows "hd (filter P xs) = x"
  using assms
proof (induction xs)
  case Nil
  then show ?case by simp
next
  case (Cons y ys)
  show ?case
  proof (cases "y = x")
    case True
    with Cons.prems(2) show ?thesis by simp
  next
    case False
    with Cons.prems have "x \<in> set ys" "\<not> P y" "\<forall>z\<in>set (takeWhile (\<lambda>z. z \<noteq> x) ys). \<not> P z"
      by simp_all
    with Cons.IH Cons.prems(2) show ?thesis by simp
  qed
qed

lemma hd_sorted_least:
  assumes "sorted (map f xs)" "x \<in> set xs"
  shows "f (hd xs) \<le> f x"
  using assms by (cases xs) auto

text \<open>
  A stable sort with this comparator has one possible result, so the choice of insertion
  as the algorithm behind \<^verbatim>\<open>sort\<close> does not matter.
\<close>

lemma array_sort_unique:
  assumes "mset ys = mset xs"
    and "sorted_wrt (\<lambda>a b. \<not> positive (compare a b)) ys"
    and "\<And>k. filter (\<lambda>n. getOrder n = k) ys = filter (\<lambda>n. getOrder n = k) xs"
  shows "ys = array_sort compare xs"
proof -
  have "sort_key code_key xs = ys"
  proof (rule properties_for_sort_key)
    show "mset ys = mset xs" by fact
    show "filter (\<lambda>x. code_key k = code_key x) ys = filter (\<lambda>x. code_key k = code_key x) xs" for k
      using assms(3) [of "getOrder k"] by (simp add: getOrder_eq_iff eq_commute)
    from assms(2) show "sorted (map code_key ys)"
      by (simp add: sorted_map positive_compare not_less)
  qed
  then show ?thesis by (simp add: array_sort_compare)
qed

lemma beforeCreateSideBarItems_eq:
  "beforeCreateSideBarItems data h =
     (length h, h[data := array_sort compare (h ! data)]
                @ [filter (\<lambda>n. n \<noteq> ''.DS_Store'') (h[data := array_sort compare (h ! data)] ! data)])"
  by (simp add: beforeCreateSideBarItems_def Array_sort_def Array_filter_def Let_def)

text \<open>The array the callback returns holds \<open>sidebar_items\<close> of the content of its argument.\<close>

lemma beforeCreateSideBarItems_returns:
  assumes "data < length h"
  shows "snd (beforeCreateSideBarItems data h) ! fst (beforeCreateSideBarItems data h)
         = sidebar_items (h ! data)"
  using assms by (simp add: beforeCreateSideBarItems_eq sidebar_items_def nth_append)

subsection \<open>The Order Key of the specification against the key of the code\<close>

text \<open>
  \<open>getOrder\<close> is the Order Key converted to a number. Up to \<open>2 ^ 53\<close> the conversion is
  exact, and sorting by the key of the code is sorting by the Order Key.
\<close>

lemma match_order_first_digit_run: "has_digit s \<Longrightarrow> match_order s = Some (first_digit_run s)"
  by (simp add: match_order_def first_digit_run_def Let_def has_digit_def list_ex_iff)

lemma first_digit_run_leftmost: "leftmost_run s pre run post \<Longrightarrow> first_digit_run s = run"
  using match_order_leftmost_run [of s pre run post] match_order_None [of s]
    match_order_first_digit_run [of s]
  by (cases "has_digit s") simp_all

lemma first_digit_run_digits:
  "has_digit s \<Longrightarrow> first_digit_run s \<noteq> [] \<and> list_all is_digit (first_digit_run s)"
  by (rule match_order_digits) (rule match_order_first_digit_run)

lemma computeOrderKey_nonneg: "0 \<le> computeOrderKey n"
  by (simp add: computeOrderKey_def first_digit_run_digits decimal_nonneg)

lemma getOrder_computeOrderKey: "getOrder n = to_number (computeOrderKey n)"
proof (cases "n = ''index.md''")
  case True
  then show ?thesis by (simp add: getOrder_def computeOrderKey_def to_number_exact)
next
  case False
  show ?thesis
  proof (cases "has_digit n")
    case True
    then have "parseInt (first_digit_run n) = to_number (decimal (first_digit_run n))"
      by (intro parseInt_digits) (simp_all add: first_digit_run_digits)
    with True False show ?thesis
      by (simp add: getOrder_def computeOrderKey_def match_order_first_digit_run)
  next
    case no: False
    with False show ?thesis by (simp add: getOrder_no_digit computeOrderKey_def to_number_exact)
  qed
qed

lemma code_key_rounded_key: "code_key = rounded_key"
  by (rule ext) (simp add: code_key_def rounded_key_def getOrder_computeOrderKey)

lemma code_key_exact:
  "computeOrderKey n \<le> 2 ^ 53 \<Longrightarrow> code_key n = enat (nat (computeOrderKey n))"
  by (simp add: code_key_def getOrder_computeOrderKey to_number_exact computeOrderKey_nonneg)

lemma code_key_le_exact:
  assumes "computeOrderKey a \<le> 2 ^ 53" "computeOrderKey b \<le> 2 ^ 53"
  shows "code_key a \<le> code_key b \<longleftrightarrow> computeOrderKey a \<le> computeOrderKey b"
  using assms computeOrderKey_nonneg [of a] computeOrderKey_nonneg [of b]
  by (simp add: code_key_exact nat_le_eq_zle)

lemma insort_key_cong_order:
  assumes "\<forall>y\<in>set ys. (f x \<le> f y) = (g x \<le> g y)"
  shows "insort_key f x ys = insort_key g x ys"
  using assms by (induction ys) simp_all

lemma sort_key_cong_order:
  assumes "\<forall>a\<in>set xs. \<forall>b\<in>set xs. (f a \<le> f b) = (g a \<le> g b)"
  shows "sort_key f xs = sort_key g xs"
  using assms
proof (induction xs)
  case Nil
  then show ?case by simp
next
  case (Cons x xs)
  then have "sort_key f xs = sort_key g xs" by simp
  moreover from Cons.prems have "\<forall>y\<in>set (sort_key g xs). (f x \<le> f y) = (g x \<le> g y)" by simp
  ultimately show ?case by (simp add: insort_key_cong_order)
qed

lemma sidebar_items_exact_key:
  assumes "\<forall>n\<in>set data. computeOrderKey n \<le> 2 ^ 53"
  shows "sidebar_items data = sort_key computeOrderKey (filter (\<lambda>n. n \<noteq> ''.DS_Store'') data)"
  unfolding sidebar_items_sort_key
  using assms by (intro sort_key_cong_order) (simp add: code_key_le_exact)

section \<open>Properties\<close>

text \<open>
  C1. For every input list that contains \<^verbatim>\<open>index.md\<close> and in which no filename
  standing before the first \<^verbatim>\<open>index.md\<close> has the order key 0, the list the callback
  returns is not empty and has \<^verbatim>\<open>index.md\<close> as its first element. (Without the
  condition on the filenames before it the statement fails: a filename whose leftmost
  digit run is zero has the same key, and the sort keeps the input order among equal
  keys.)
\<close>

theorem index_first:
  assumes "''index.md'' \<in> set data"
    and "\<forall>n\<in>set (takeWhile (\<lambda>n. n \<noteq> ''index.md'') data). getOrder n \<noteq> Finite 0"
  shows "sidebar_items data \<noteq> [] \<and> hd (sidebar_items data) = ''index.md''"
proof -
  let ?out = "sidebar_items data"
  let ?Z = "\<lambda>n. code_key n = 0"
  let ?P = "\<lambda>n. n \<noteq> ''.DS_Store''"
  have mem: "''index.md'' \<in> set ?out"
    using assms(1) by (simp add: sidebar_items_def array_sort_compare)
  then have ne: "?out \<noteq> []" by auto
  from sorted_sidebar_items mem have "code_key (hd ?out) \<le> code_key ''index.md''"
    by (rule hd_sorted_least)
  then have "?Z (hd ?out)" by (simp add: code_key_index)
  with ne have "hd ?out = hd (filter ?Z ?out)" by (cases ?out) simp_all
  also have "filter ?Z ?out = filter ?Z (filter ?P data)"
    unfolding sidebar_items_sort_key by (rule sort_key_stable)
  also have "\<dots> = filter (\<lambda>n. ?P n \<and> ?Z n) data" by (simp add: conj_commute)
  also have "hd \<dots> = ''index.md''"
    using assms by (intro hd_filter_first) (simp_all add: code_key_index code_key_zero_iff)
  finally show ?thesis using ne by simp
qed

theorem index_first_witness:
  "''index.md'' \<in> set [''1-a.md'', ''index.md'', ''0-b.md'']
   \<and> takeWhile (\<lambda>n. n \<noteq> ''index.md'') [''1-a.md'', ''index.md'', ''0-b.md''] = [''1-a.md'']
   \<and> getOrder ''1-a.md'' = Finite 1
   \<and> hd (sidebar_items [''1-a.md'', ''index.md'', ''0-b.md'']) = ''index.md''"
proof -
  have a: "''index.md'' \<in> set [''1-a.md'', ''index.md'', ''0-b.md'']" by simp
  have t: "takeWhile (\<lambda>n. n \<noteq> ''index.md'') [''1-a.md'', ''index.md'', ''0-b.md''] = [''1-a.md'']"
    by simp
  have g: "getOrder ''1-a.md'' = Finite 1" by code_simp
  have b: "\<forall>n\<in>set (takeWhile (\<lambda>n. n \<noteq> ''index.md'') [''1-a.md'', ''index.md'', ''0-b.md'']).
         getOrder n \<noteq> Finite 0"
    unfolding t by (simp add: g)
  from index_first [OF a b] a t g show ?thesis by blast
qed

text \<open>
  With \<^verbatim>\<open>0-intro.md\<close> before it in the input, \<^verbatim>\<open>index.md\<close> comes second in the
  output.
\<close>

theorem index_first_counterexample:
  "''index.md'' \<in> set [''0-intro.md'', ''index.md'']
   \<and> sidebar_items [''0-intro.md'', ''index.md''] = [''0-intro.md'', ''index.md'']
   \<and> hd (sidebar_items [''0-intro.md'', ''index.md'']) \<noteq> ''index.md''"
  by code_simp




text \<open>
  C3. In the list the callback returns, every filename without a decimal digit other than
  \<^verbatim>\<open>index.md\<close> (its order key is the sentinel 999) stands after every filename that
  has a digit and an order key below 999. (Digit-bearing filenames with a key of 999 or
  more are not all placed before the digit-free ones, and the digit-free
  \<^verbatim>\<open>index.md\<close> has key 0.)
\<close>

theorem digit_free_after_small_keys:
  assumes "i < length (sidebar_items data)" and "j < length (sidebar_items data)"
    and "\<not> has_digit (sidebar_items data ! i)" and "sidebar_items data ! i \<noteq> ''index.md''"
    and "has_digit (sidebar_items data ! j)"
    and "getOrder (sidebar_items data ! j) = Finite k" and "k < 999"
  shows "j < i"
proof (rule ccontr)
  let ?out = "sidebar_items data"
  assume "\<not> j < i"
  moreover from assms(3,5) have "i \<noteq> j" by auto
  ultimately have "i < j" by simp
  with sorted_sidebar_items [of data] assms(2)
  have "code_key (?out ! i) \<le> code_key (?out ! j)"
    by (simp add: sorted_iff_nth_mono)
  then have "num_le (getOrder (?out ! i)) (getOrder (?out ! j))" by (simp add: num_le_getOrder)
  with assms(3,4,6,7) show False by (simp add: getOrder_no_digit)
qed

theorem digit_free_after_small_keys_witness:
  "sidebar_items [''about.md'', ''2-b.md''] = [''2-b.md'', ''about.md'']
   \<and> \<not> has_digit ''about.md'' \<and> has_digit ''2-b.md'' \<and> getOrder ''2-b.md'' = Finite 2
   \<and> (0::nat) < 1"
proof -
  have out: "sidebar_items [''about.md'', ''2-b.md''] = [''2-b.md'', ''about.md'']" by code_simp
  have a: "\<not> has_digit ''about.md''" by code_simp
  have b: "has_digit ''2-b.md''" by code_simp
  have g: "getOrder ''2-b.md'' = Finite 2" by code_simp
  from digit_free_after_small_keys [of 1 "[''about.md'', ''2-b.md'']" 0 2] out a b g
  show ?thesis by simp
qed

text \<open>The digit-free about.md is placed before 1000.md, whose key 1000 exceeds the sentinel.\<close>

theorem digit_free_last_counterexample:
  "\<not> has_digit ''about.md'' \<and> has_digit ''1000.md''
   \<and> sidebar_items [''1000.md'', ''about.md''] = [''about.md'', ''1000.md'']"
  by code_simp

text \<open>
  C4. For every filename with at least one decimal digit (such a filename is not
  \<^verbatim>\<open>index.md\<close>), \<open>getOrder\<close> returns the number nearest to the base-10 integer
  formed by the leftmost maximal run of digits: the double nearest to it, ties to the even
  significand, \<open>+\<infinity>\<close> from \<open>2 ^ 1024 - 2 ^ 970\<close> on. It is exactly that integer whenever
  the integer is at most \<open>2 ^ 53 = 9007199254740992\<close>, hence for every run of up to 15
  digits; for a longer run it can differ from the integer.
\<close>

theorem getOrder_leftmost_run:
  assumes "leftmost_run item pre run post"
  shows "getOrder item = to_number (decimal run)
         \<and> (decimal run \<le> 2 ^ 53 \<longrightarrow> getOrder item = Finite (decimal run))"
proof -
  from assms have run: "run \<noteq> []" "list_all is_digit run" by (simp_all add: leftmost_run_def)
  then have "parseInt run = to_number (decimal run)" by (rule parseInt_digits)
  with assms have g: "getOrder item = to_number (decimal run)" by (simp add: getOrder_run)
  from run have "0 \<le> decimal run" by (simp add: decimal_nonneg)
  with g show ?thesis by (simp add: to_number_exact)
qed

theorem getOrder_leftmost_run_witness:
  "leftmost_run ''a2b30.md'' ''a'' ''2'' ''b30.md'' \<and> getOrder ''a2b30.md'' = Finite 2
   \<and> decimal ''2'' = 2"
proof -
  have r: "leftmost_run ''a2b30.md'' ''a'' ''2'' ''b30.md''"
    by (simp add: leftmost_run_def is_digit_def)
  have d: "decimal ''2'' = 2" by (simp add: digit_val_def)
  from getOrder_leftmost_run [OF r, THEN conjunct2] r d show ?thesis by simp
qed

text \<open>
  The run 9007199254740993 is \<open>2 ^ 53 + 1\<close>, which no double represents; the key is
  \<open>2 ^ 53\<close>.
\<close>

theorem getOrder_long_run_counterexample:
  "leftmost_run ''9007199254740993.md'' [] ''9007199254740993'' ''.md''
   \<and> decimal ''9007199254740993'' = 9007199254740993
   \<and> getOrder ''9007199254740993.md'' = Finite 9007199254740992"
  by code_simp

text \<open>
  C5. Whatever the input list, the list the callback returns is a permutation of the input
  without the occurrences of \<^verbatim>\<open>.DS_Store\<close>. It is in ascending order of the Order
  Key rounded to the nearest number, and filenames whose rounded keys are equal keep the
  order they have in the input. Whenever every filename of the input has an Order Key of
  at most \<open>2 ^ 53\<close>, it is therefore in ascending order of the Order Key itself, and
  filenames of equal Order Key keep their order from the input: for every key, the
  filenames of that key form the same sequence in the output and in the filtered input.
  (With larger keys the output need not ascend by the Order Key.)
\<close>

theorem sidebar_items_permutation_sorted_stable:
  "mset (sidebar_items data) = mset (filter (\<lambda>n. n \<noteq> ''.DS_Store'') data)
   \<and> sorted_wrt (\<lambda>a b. num_le (to_number (computeOrderKey a)) (to_number (computeOrderKey b)))
         (sidebar_items data)
   \<and> (\<forall>k. filter (\<lambda>n. to_number (computeOrderKey n) = k) (sidebar_items data)
          = filter (\<lambda>n. to_number (computeOrderKey n) = k)
              (filter (\<lambda>n. n \<noteq> ''.DS_Store'') data))
   \<and> ((\<forall>n\<in>set data. computeOrderKey n \<le> 2 ^ 53) \<longrightarrow>
        sorted (map computeOrderKey (sidebar_items data))
        \<and> (\<forall>k. filter (\<lambda>n. computeOrderKey n = k) (sidebar_items data)
               = filter (\<lambda>n. computeOrderKey n = k)
                   (filter (\<lambda>n. n \<noteq> ''.DS_Store'') data)))"
proof (intro conjI allI impI)
  show "mset (sidebar_items data) = mset (filter (\<lambda>n. n \<noteq> ''.DS_Store'') data)"
    by (simp add: sidebar_items_sort_key)
  show "sorted_wrt (\<lambda>a b. num_le (to_number (computeOrderKey a)) (to_number (computeOrderKey b)))
         (sidebar_items data)"
    using sorted_sidebar_items [of data]
    by (simp add: sorted_map num_le_getOrder [symmetric] getOrder_computeOrderKey)
  show "filter (\<lambda>n. to_number (computeOrderKey n) = k) (sidebar_items data)
          = filter (\<lambda>n. to_number (computeOrderKey n) = k)
              (filter (\<lambda>n. n \<noteq> ''.DS_Store'') data)" for k
    unfolding getOrder_computeOrderKey [symmetric] filter_getOrder
    by (simp only: sidebar_items_sort_key sort_key_stable)
next
  assume small: "\<forall>n\<in>set data. computeOrderKey n \<le> 2 ^ 53"
  then show "sorted (map computeOrderKey (sidebar_items data))"
    by (simp add: sidebar_items_exact_key)
  from small
  show "filter (\<lambda>n. computeOrderKey n = k) (sidebar_items data)
          = filter (\<lambda>n. computeOrderKey n = k) (filter (\<lambda>n. n \<noteq> ''.DS_Store'') data)" for k
    by (simp only: sidebar_items_exact_key sort_key_stable)
qed

theorem sidebar_items_permutation_sorted_stable_witness:
  "map computeOrderKey [''b.md'', ''7-x.md'', ''.DS_Store'', ''2-y.md'', ''a.md'']
     = [999, 7, 999, 2, 999]
   \<and> sidebar_items [''b.md'', ''7-x.md'', ''.DS_Store'', ''2-y.md'', ''a.md'']
     = [''2-y.md'', ''7-x.md'', ''b.md'', ''a.md'']
   \<and> sorted (map computeOrderKey [''2-y.md'', ''7-x.md'', ''b.md'', ''a.md''])
   \<and> filter (\<lambda>n. computeOrderKey n = 999) [''2-y.md'', ''7-x.md'', ''b.md'', ''a.md'']
     = [''b.md'', ''a.md'']"
proof -
  let ?data = "[''b.md'', ''7-x.md'', ''.DS_Store'', ''2-y.md'', ''a.md'']"
  have k: "map computeOrderKey ?data = [999, 7, 999, 2, 999]" by code_simp
  have out: "sidebar_items ?data = [''2-y.md'', ''7-x.md'', ''b.md'', ''a.md'']" by code_simp
  from k have small: "\<forall>n\<in>set ?data. computeOrderKey n \<le> 2 ^ 53" by simp
  from sidebar_items_permutation_sorted_stable [of ?data] small
  have "sorted (map computeOrderKey (sidebar_items ?data))"
    and "filter (\<lambda>n. computeOrderKey n = 999) (sidebar_items ?data)
          = filter (\<lambda>n. computeOrderKey n = 999) (filter (\<lambda>n. n \<noteq> ''.DS_Store'') ?data)"
    by blast+
  with k out show ?thesis by simp
qed

text \<open>
  The keys \<open>2 ^ 53 + 1\<close> and \<open>2 ^ 53\<close> are the same number for the comparator, so the two
  filenames stay in input order, the larger Order Key first.
\<close>

theorem sorted_by_order_key_counterexample:
  "sidebar_items [''9007199254740993.md'', ''9007199254740992.md'']
     = [''9007199254740993.md'', ''9007199254740992.md'']
   \<and> map computeOrderKey [''9007199254740993.md'', ''9007199254740992.md'']
     = [9007199254740993, 9007199254740992]
   \<and> \<not> sorted (map computeOrderKey
                  (sidebar_items [''9007199254740993.md'', ''9007199254740992.md'']))"
  by code_simp

text \<open>
  C6. Sorting the whole list with the comparator and filtering afterwards, as the callback
  does, gives for every input list what removing every element equal to the artifact
  name and then stable-sorting the rest ascending by the rounded Order Key gives; and for
  every input list whose filenames all have an Order Key of at most \<open>2 ^ 53\<close> it gives
  the list obtained in the order of the specification: remove the artifact, then
  stable-sort the rest ascending by \<^verbatim>\<open>computeOrderKey\<close>. (With larger keys the two can
  differ.)
\<close>

theorem sort_then_filter_refines_filterAndSort:
  "sidebar_items data = sort_key rounded_key (filter (\<lambda>n. n \<noteq> ''.DS_Store'') data)
   \<and> ((\<forall>n\<in>set data. computeOrderKey n \<le> 2 ^ 53) \<longrightarrow> sidebar_items data = filterAndSort data)"
proof (intro conjI impI)
  show "sidebar_items data = sort_key rounded_key (filter (\<lambda>n. n \<noteq> ''.DS_Store'') data)"
    by (simp add: sidebar_items_sort_key code_key_rounded_key)
next
  assume "\<forall>n\<in>set data. computeOrderKey n \<le> 2 ^ 53"
  then show "sidebar_items data = filterAndSort data"
    unfolding filterAndSort_def by (rule sidebar_items_exact_key)
qed

theorem sort_then_filter_refines_filterAndSort_witness:
  "map computeOrderKey [''b.md'', ''.DS_Store'', ''3-c.md'', ''index.md'', ''12.md'', ''3-a.md'']
     = [999, 999, 3, 0, 12, 3]
   \<and> sidebar_items [''b.md'', ''.DS_Store'', ''3-c.md'', ''index.md'', ''12.md'', ''3-a.md'']
     = [''index.md'', ''3-c.md'', ''3-a.md'', ''12.md'', ''b.md'']
   \<and> filterAndSort [''b.md'', ''.DS_Store'', ''3-c.md'', ''index.md'', ''12.md'', ''3-a.md'']
     = [''index.md'', ''3-c.md'', ''3-a.md'', ''12.md'', ''b.md'']"
proof -
  let ?data = "[''b.md'', ''.DS_Store'', ''3-c.md'', ''index.md'', ''12.md'', ''3-a.md'']"
  have k: "map computeOrderKey ?data = [999, 999, 3, 0, 12, 3]" by code_simp
  have out: "sidebar_items ?data = [''index.md'', ''3-c.md'', ''3-a.md'', ''12.md'', ''b.md'']"
    by code_simp
  from k have small: "\<forall>n\<in>set ?data. computeOrderKey n \<le> 2 ^ 53" by simp
  from sort_then_filter_refines_filterAndSort [of ?data] small
  have "sidebar_items ?data = filterAndSort ?data" by blast
  with k out show ?thesis by simp
qed

text \<open>
  The specification's sort by the integer key swaps the two filenames, the callback leaves
  them as they are.
\<close>

theorem filterAndSort_counterexample:
  "sidebar_items [''9007199254740993.md'', ''9007199254740992.md'']
     = [''9007199254740993.md'', ''9007199254740992.md'']
   \<and> filterAndSort [''9007199254740993.md'', ''9007199254740992.md'']
     = [''9007199254740992.md'', ''9007199254740993.md'']"
  by code_simp

text \<open>
  C7. The callback is idempotent: applied to the list it returned, it returns that list
  again.
\<close>

theorem sidebar_items_idempotent: "sidebar_items (sidebar_items data) = sidebar_items data"
proof -
  let ?out = "sidebar_items data"
  have "filter (\<lambda>n. n \<noteq> ''.DS_Store'') ?out = ?out" by (simp add: sidebar_items_def)
  then have "sidebar_items ?out = sort_key code_key ?out"
    by (simp add: sidebar_items_sort_key [of ?out])
  also have "\<dots> = ?out" using sorted_sidebar_items by (rule sort_key_id_if_sorted)
  finally show ?thesis .
qed

text \<open>
  C8. For every filename whose leftmost maximal run of digits parses to 0, \<open>getOrder\<close>
  returns 0, the key of \<^verbatim>\<open>index.md\<close>, although the filename is not
  \<^verbatim>\<open>index.md\<close>: the key 0 is not unique to the landing page.
\<close>

theorem getOrder_zero_run:
  assumes "leftmost_run item pre run post" "parseInt run = Finite 0"
  shows "getOrder item = Finite 0 \<and> getOrder ''index.md'' = Finite 0 \<and> item \<noteq> ''index.md''"
  using assms by (simp add: getOrder_run) (simp add: getOrder_def)

theorem getOrder_zero_run_witness:
  "leftmost_run ''00-setup.md'' [] ''00'' ''-setup.md'' \<and> parseInt ''00'' = Finite 0
   \<and> getOrder ''00-setup.md'' = Finite 0 \<and> getOrder ''index.md'' = Finite 0
   \<and> ''00-setup.md'' \<noteq> ''index.md''"
proof -
  have r: "leftmost_run ''00-setup.md'' [] ''00'' ''-setup.md''"
    by (simp add: leftmost_run_def is_digit_def)
  have p: "parseInt ''00'' = Finite 0" by code_simp
  from getOrder_zero_run [OF r p] r p show ?thesis by simp
qed

text \<open>
  C9. Whatever the input list, the list the callback returns has no element equal to
  \<^verbatim>\<open>.DS_Store\<close>, however often that name occurs in the input.
\<close>

theorem sidebar_items_no_artifact: "''.DS_Store'' \<notin> set (sidebar_items data)"
  by (simp add: sidebar_items_def)

text \<open>
  C10. On the list about.md, index.md, 10-install.md, 2-quickstart.md, .DS_Store,
  99-faq.md the callback returns index.md, 2-quickstart.md, 10-install.md, 99-faq.md,
  about.md.
\<close>

theorem sidebar_items_example:
  "sidebar_items [''about.md'', ''index.md'', ''10-install.md'', ''2-quickstart.md'',
                  ''.DS_Store'', ''99-faq.md'']
   = [''index.md'', ''2-quickstart.md'', ''10-install.md'', ''99-faq.md'', ''about.md'']"
  by code_simp

end
